theory Spec2Isabelle
  imports Complex_Main "HOL-Library.AList" "HOL-Library.Word"
begin

section \<open>Python values shared by the modules\<close>

text \<open>
  An \<open>Optional[str]\<close> is a \<open>string option\<close>. Python's truth test on such a value
  (\<open>if v:\<close>, \<open>not v\<close>) holds exactly for a string that is not empty.
\<close>

definition truthy :: "string option \<Rightarrow> bool" where
  "truthy v = (case v of None \<Rightarrow> False | Some s \<Rightarrow> s \<noteq> [])"

text \<open>
  The exceptions that travel through the pipeline: the \<open>ValueError\<close> of
  \<open>_resolve_target\<close>, and what \<open>urlopen\<close> raises and \<open>load\<close> re-raises.
\<close>

datatype error = ValueError | HTTPError int | URLError

section \<open>pipelines.py: DorisStreamLoader\<close>

text \<open>
  The outside world of the loader: the \<open>n\<close>-th call of \<open>uuid.uuid4()\<close> returns
  \<open>uuid4 env n\<close>, and the \<open>n\<close>-th call of \<open>urlopen\<close> returns normally (\<open>None\<close>) or
  raises (\<open>Some e\<close>).
\<close>

record environment =
  uuid4 :: "nat \<Rightarrow> string"
  urlopen :: "nat \<Rightarrow> error option"

text \<open>
  The loader after \<open>__init__\<close>: \<open>user\<close> and \<open>password\<close> are strings (empty when
  not given) and \<open>extra_headers\<close> is a dict in insertion order. The timeout only bounds
  the duration of a call and is left out.
\<close>

record DorisStreamLoader =
  host :: string
  user :: string
  password :: string
  label_prefix :: string
  extra_headers :: "(string \<times> string) list"

text \<open>
  \<open>Request.add_header(key, val)\<close> of urllib stores the value under
  \<open>key.capitalize()\<close>, first letter in upper case and the rest in lower case, and
  replaces a value stored under that name before. Letters outside ASCII are left as
  they are.
\<close>

definition ascii_upper :: "char \<Rightarrow> char" where
  "ascii_upper c =
     (case map_of (zip ''abcdefghijklmnopqrstuvwxyz'' ''ABCDEFGHIJKLMNOPQRSTUVWXYZ'') c of
        None \<Rightarrow> c | Some u \<Rightarrow> u)"

definition ascii_lower :: "char \<Rightarrow> char" where
  "ascii_lower c =
     (case map_of (zip ''ABCDEFGHIJKLMNOPQRSTUVWXYZ'' ''abcdefghijklmnopqrstuvwxyz'') c of
        None \<Rightarrow> c | Some l \<Rightarrow> l)"

fun capitalize :: "string \<Rightarrow> string" where
  "capitalize [] = []"
| "capitalize (c # cs) = ascii_upper c # map ascii_lower cs"

text \<open>
  A header value is a text, or the basic authentication of a user and a password, which
  stands for \<open>"Basic " + base64(user:password)\<close>.
\<close>

datatype header_value = Text string | BasicAuth string string

definition add_header ::
  "string \<Rightarrow> header_value \<Rightarrow> (string \<times> header_value) list \<Rightarrow> (string \<times> header_value) list" where
  "add_header key val headers = AList.update (capitalize key) val headers"

text \<open>
  One invocation of \<open>load\<close>, as the network sees it: the arguments, the URL of the PUT
  request and its headers. The list of all invocations, oldest first, is the network log.
\<close>

record 'i load_call =
  call_database :: string
  call_table :: string
  call_records :: "'i list"
  call_url :: string
  call_headers :: "(string \<times> header_value) list"

text \<open>The label the store receives with a request: the text of its \<open>Label\<close> header.\<close>

definition call_label :: "'i load_call \<Rightarrow> string option" where
  "call_label c =
     (case map_of (call_headers c) ''Label'' of Some (Text v) \<Rightarrow> Some v | _ \<Rightarrow> None)"

definition generate_label :: "DorisStreamLoader \<Rightarrow> environment \<Rightarrow> nat \<Rightarrow> string" where
  "generate_label self env n = label_prefix self @ ''-'' @ uuid4 env n"

text \<open>
  The headers of the request that \<open>load\<close> builds when \<open>n\<close> requests were made before
  it: the four fixed headers, the label among them, then the authorization when a user is
  set, then the extra headers, each with \<open>add_header\<close>.
\<close>

definition request_headers ::
  "environment \<Rightarrow> DorisStreamLoader \<Rightarrow> nat \<Rightarrow> (string \<times> header_value) list" where
  "request_headers env self n =
     (let headers = add_header ''Content-Type'' (Text ''application/json; charset=UTF-8'') [];
          headers = add_header ''format'' (Text ''json'') headers;
          headers = add_header ''strip_outer_array'' (Text ''true'') headers;
          headers = add_header ''label'' (Text (generate_label self env n)) headers;
          headers = (if user self \<noteq> []
                     then add_header ''Authorization'' (BasicAuth (user self) (password self)) headers
                     else headers)
      in fold (\<lambda>(header, val). add_header header (Text val)) (extra_headers self) headers)"

text \<open>
  The request itself. \<open>load\<close> sends it and returns, or re-raises what \<open>urlopen\<close>
  raised; either way the request has reached the network log.
\<close>

definition stream_load_request ::
  "environment \<Rightarrow> DorisStreamLoader \<Rightarrow> string \<Rightarrow> string \<Rightarrow> 'i list \<Rightarrow> nat \<Rightarrow> 'i load_call" where
  "stream_load_request env self database table recs n =
     \<lparr>call_database = database, call_table = table, call_records = recs,
      call_url = host self @ ''/api/'' @ database @ ''/'' @ table @ ''/_stream_load'',
      call_headers = request_headers env self n\<rparr>"

definition load ::
  "environment \<Rightarrow> DorisStreamLoader \<Rightarrow> string \<Rightarrow> string \<Rightarrow> 'i list \<Rightarrow> 'i load_call list
     \<Rightarrow> (error + unit) \<times> 'i load_call list" where
  "load env self database table recs net =
     (let n = length net;
          request = stream_load_request env self database table recs n
      in (case urlopen env n of None \<Rightarrow> Inr () | Some e \<Rightarrow> Inl e, net @ [request]))"

section \<open>pipelines.py: DorisPipeline\<close>

text \<open>
  \<open>buffers\<close> is a Python dict, which keeps its keys in insertion order: an association
  list, extended at the end. An item stands for the dict that
  \<open>ItemAdapter(item).asdict()\<close> makes of it.
\<close>

record 'i DorisPipeline =
  loader :: DorisStreamLoader
  default_database :: string
  default_table :: string
  batch_size :: int
  buffers :: "((string \<times> string) \<times> 'i list) list"

text \<open>
  What the pipeline reads of a spider with \<open>getattr\<close>: each attribute is absent
  (\<open>None\<close>) or present with its value. \<open>get_doris_target\<close>, when present, returns a
  pair (truthy, whatever its components) or a falsy value (\<open>None\<close>).
\<close>

record 'i Spider =
  get_doris_target :: "('i \<Rightarrow> (string option \<times> string option) option) option"
  doris_database :: "string option option"
  doris_table :: "string option option"

definition resolve_target :: "'i DorisPipeline \<Rightarrow> 'i Spider \<Rightarrow> 'i \<Rightarrow> error + string \<times> string" where
  "resolve_target self spider item =
     (let database = Some (default_database self);
          table = Some (default_table self);
          (database, table) =
            (case get_doris_target spider of
               None \<Rightarrow> (database, table)
             | Some getter \<Rightarrow>
                 (case getter item of None \<Rightarrow> (database, table) | Some resolved \<Rightarrow> resolved));
          database = (case doris_database spider of None \<Rightarrow> database | Some v \<Rightarrow> v);
          table = (case doris_table spider of None \<Rightarrow> table | Some v \<Rightarrow> v)
      in if \<not> truthy database \<or> \<not> truthy table then Inl ValueError
         else Inr (the database, the table))"

text \<open>The list held under a key; a key that is not in the dict holds nothing.\<close>

definition buffer_at :: "'i DorisPipeline \<Rightarrow> string \<times> string \<Rightarrow> 'i list" where
  "buffer_at self key = (case map_of (buffers self) key of None \<Rightarrow> [] | Some b \<Rightarrow> b)"

definition setdefault :: "'k \<Rightarrow> 'v \<Rightarrow> ('k \<times> 'v) list \<Rightarrow> ('k \<times> 'v) list" where
  "setdefault k v d = (case map_of d k of None \<Rightarrow> d @ [(k, v)] | Some b \<Rightarrow> d)"

text \<open>
  \<open>_flush(database, table, buffer)\<close>: both callers pass the very list stored under
  \<open>(database, table)\<close>, so the model reads it there, and \<open>buffer.clear()\<close> empties that
  entry. The state is the pipeline together with the network log. When \<open>load\<close> raises,
  \<open>clear\<close> is not reached.
\<close>

definition flush ::
  "environment \<Rightarrow> string \<Rightarrow> string \<Rightarrow> 'i DorisPipeline \<times> 'i load_call list
     \<Rightarrow> (error + unit) \<times> 'i DorisPipeline \<times> 'i load_call list" where
  "flush env database table st =
     (case st of (self, net) \<Rightarrow>
        (let buffer = buffer_at self (database, table)
         in if buffer = [] then (Inr (), self, net)
            else (case load env (loader self) database table buffer net of
                    (Inl e, net') \<Rightarrow> (Inl e, self, net')
                  | (Inr u, net') \<Rightarrow>
                      (Inr (), self\<lparr>buffers := AList.update (database, table) [] (buffers self)\<rparr>,
                       net'))))"

definition process_item ::
  "environment \<Rightarrow> 'i Spider \<Rightarrow> 'i \<Rightarrow> 'i DorisPipeline \<times> 'i load_call list
     \<Rightarrow> (error + 'i) \<times> 'i DorisPipeline \<times> 'i load_call list" where
  "process_item env spider item st =
     (case st of (self, net) \<Rightarrow>
        (case resolve_target self spider item of
           Inl e \<Rightarrow> (Inl e, self, net)
         | Inr (database, table) \<Rightarrow>
             (let key = (database, table);
                  d = setdefault key [] (buffers self);
                  buffer = (case map_of d key of None \<Rightarrow> [] | Some b \<Rightarrow> b) @ [item];
                  self' = self\<lparr>buffers := AList.update key buffer d\<rparr>
              in if batch_size self \<le> int (length buffer)
                 then (case flush env database table (self', net) of
                         (Inl e, st') \<Rightarrow> (Inl e, st')
                       | (Inr u, st') \<Rightarrow> (Inr item, st'))
                 else (Inr item, self', net))))"

text \<open>
  \<open>close_spider\<close> walks a snapshot of the dict's entries; the lists in the snapshot are
  the live buffers, so the test \<open>if buffer\<close> reads the current state. An exception of
  \<open>_flush\<close> leaves the loop.
\<close>

fun close_loop ::
  "environment \<Rightarrow> (string \<times> string) list \<Rightarrow> 'i DorisPipeline \<times> 'i load_call list
     \<Rightarrow> (error + unit) \<times> 'i DorisPipeline \<times> 'i load_call list" where
  "close_loop env [] st = (Inr (), st)"
| "close_loop env ((database, table) # ks) st =
     (if buffer_at (fst st) (database, table) \<noteq> []
      then (case flush env database table st of
              (Inl e, st') \<Rightarrow> (Inl e, st')
            | (Inr u, st') \<Rightarrow> close_loop env ks st')
      else close_loop env ks st)"

definition close_spider ::
  "environment \<Rightarrow> 'i DorisPipeline \<times> 'i load_call list
     \<Rightarrow> (error + unit) \<times> 'i DorisPipeline \<times> 'i load_call list" where
  "close_spider env st = close_loop env (map fst (buffers (fst st))) st"

text \<open>
  The host calls \<open>process_item\<close> once per scraped item and \<open>close_spider\<close> at the
  end. Scrapy logs an exception of \<open>process_item\<close> and goes on with the next item, so a
  run keeps the state a failed call leaves behind.
\<close>

fun submit_all ::
  "environment \<Rightarrow> ('i Spider \<times> 'i) list \<Rightarrow> 'i DorisPipeline \<times> 'i load_call list
     \<Rightarrow> 'i DorisPipeline \<times> 'i load_call list" where
  "submit_all env [] st = st"
| "submit_all env ((spider, item) # subs) st =
     submit_all env subs (snd (process_item env spider item st))"

text \<open>The \<open>load\<close> invocations for one destination, and the records they carried, in call order.\<close>

definition calls_for :: "string \<times> string \<Rightarrow> 'i load_call list \<Rightarrow> 'i load_call list" where
  "calls_for d net = filter (\<lambda>c. (call_database c, call_table c) = d) net"

definition batches_for :: "string \<times> string \<Rightarrow> 'i load_call list \<Rightarrow> 'i list" where
  "batches_for d net = concat (map call_records (calls_for d net))"

text \<open>How many records each invocation carried.\<close>

definition call_sizes :: "'i load_call list \<Rightarrow> nat list" where
  "call_sizes net = map (\<lambda>c. length (call_records c)) net"

text \<open>
  The records of a destination that have been passed to \<open>load\<close>, followed by those
  that wait in its buffer.
\<close>

definition delivered :: "string \<times> string \<Rightarrow> 'i DorisPipeline \<times> 'i load_call list \<Rightarrow> 'i list" where
  "delivered d st = batches_for d (snd st) @ buffer_at (fst st) d"

text \<open>The items of a run that resolve to a destination, in submission order.\<close>

definition submitted_for ::
  "'i DorisPipeline \<Rightarrow> string \<times> string \<Rightarrow> ('i Spider \<times> 'i) list \<Rightarrow> 'i list" where
  "submitted_for self d subs =
     map snd (filter (\<lambda>s. resolve_target self (fst s) (snd s) = Inr d) subs)"



text \<open>The keys of the buffers that are not empty, in the order of the dict.\<close>

definition waiting :: "'i DorisPipeline \<Rightarrow> (string \<times> string) list" where
  "waiting self = filter (\<lambda>k. buffer_at self k \<noteq> []) (map fst (buffers self))"

subsection \<open>The three sources of a destination, as the specification names them\<close>

text \<open>
  The specification speaks of three tiers, each yielding a (database, table) pair: the
  spider's \<open>get_doris_target\<close>, the spider's \<open>doris_database\<close> and \<open>doris_table\<close>
  attributes, and the pipeline's defaults. A pair is non-empty when both of its components
  are non-empty strings, as a destination must be.
\<close>

definition nonempty_pair :: "string option \<times> string option \<Rightarrow> bool" where
  "nonempty_pair p = (truthy (fst p) \<and> truthy (snd p))"

definition override_tier :: "'i Spider \<Rightarrow> 'i \<Rightarrow> string option \<times> string option" where
  "override_tier spider item =
     (case get_doris_target spider of
        None \<Rightarrow> (None, None)
      | Some getter \<Rightarrow> (case getter item of None \<Rightarrow> (None, None) | Some resolved \<Rightarrow> resolved))"

definition static_tier :: "'i Spider \<Rightarrow> string option \<times> string option" where
  "static_tier spider =
     (case doris_database spider of None \<Rightarrow> None | Some v \<Rightarrow> v,
      case doris_table spider of None \<Rightarrow> None | Some v \<Rightarrow> v)"

definition global_tier :: "'i DorisPipeline \<Rightarrow> string option \<times> string option" where
  "global_tier self = (Some (default_database self), Some (default_table self))"

section \<open>middlewares.py: RedisProxyMiddleware\<close>

text \<open>
  What \<open>client.srandmember(key)\<close> can do: raise, return \<open>None\<close>, bytes or a string.
  The client is a function of the key and of the number of queries made before, so that
  the store may answer differently each time.
\<close>

datatype redis_reply = RedisError | Nil | Bytes "8 word list" | Str string

record RedisProxyMiddleware =
  proxy_key :: string
  encoding :: string
  fallback_proxy :: "string option"
  client :: "(string \<Rightarrow> nat \<Rightarrow> redis_reply) option"

text \<open>A request carries \<open>meta\<close>, a dict whose \<open>proxy\<close> entry holds \<open>None\<close> or a string.\<close>

record Request =
  meta :: "string \<rightharpoonup> string option"

definition meta_get :: "Request \<Rightarrow> string \<Rightarrow> string option" where
  "meta_get request k = (case meta request k of None \<Rightarrow> None | Some v \<Rightarrow> v)"

text \<open>
  \<open>decode\<close> is \<open>bytes.decode(encoding, errors="ignore")\<close> of the Python library, a
  parameter here. The result pairs the proxy with the number of store queries made so far.
\<close>

definition get_proxy ::
  "(string \<Rightarrow> 8 word list \<Rightarrow> string) \<Rightarrow> RedisProxyMiddleware \<Rightarrow> nat \<Rightarrow> string option \<times> nat" where
  "get_proxy decode self q =
     (case client self of
        None \<Rightarrow> (None, q)
      | Some c \<Rightarrow>
          (case c (proxy_key self) q of
             RedisError \<Rightarrow> (None, Suc q)
           | Nil \<Rightarrow> (None, Suc q)
           | Bytes b \<Rightarrow> (Some (decode (encoding self) b), Suc q)
           | Str s \<Rightarrow> (Some s, Suc q)))"

definition process_request ::
  "(string \<Rightarrow> 8 word list \<Rightarrow> string) \<Rightarrow> RedisProxyMiddleware \<Rightarrow> Request \<times> nat \<Rightarrow> Request \<times> nat" where
  "process_request decode self st =
     (case st of (request, q) \<Rightarrow>
        if truthy (meta_get request ''proxy'') then (request, q)
        else (case get_proxy decode self q of (proxy, q') \<Rightarrow>
                if truthy proxy then (request\<lparr>meta := (meta request)(''proxy'' \<mapsto> proxy)\<rparr>, q')
                else if truthy (fallback_proxy self)
                then (request\<lparr>meta := (meta request)(''proxy'' \<mapsto> fallback_proxy self)\<rparr>, q')
                else (request, q')))"

section \<open>spiders/example.py and concrete configurations\<close>

text \<open>
  An \<open>ExampleItem\<close> is a dict of the fields \<open>title\<close>, \<open>url\<close> and \<open>description\<close>.
  \<open>QuotesSpider\<close> sets \<open>doris_database = "demo"\<close> and \<open>doris_table = "quotes"\<close> and
  overrides \<open>get_doris_target\<close>.
\<close>

type_synonym ExampleItem = "(string \<times> string option) list"

definition py_or :: "string option \<Rightarrow> string \<Rightarrow> string option" where
  "py_or a b = (if truthy a then a else Some b)"

definition adapter_get :: "ExampleItem \<Rightarrow> string \<Rightarrow> string option" where
  "adapter_get item k = (case map_of item k of None \<Rightarrow> None | Some v \<Rightarrow> v)"

text \<open>
  \<open>QuotesSpider.get_doris_target\<close> reads \<open>self.doris_database\<close> and
  \<open>self.doris_table\<close>, the first two arguments here.
\<close>

definition quotes_get_doris_target ::
  "string option \<Rightarrow> string option \<Rightarrow> ExampleItem \<Rightarrow> (string option \<times> string option) option" where
  "quotes_get_doris_target self_database self_table item =
     (let author = adapter_get item ''description''
      in if truthy author
         then Some (py_or self_database ''demo'', py_or self_table ''quotes'')
         else Some (py_or self_database ''demo'', Some ''quotes_unknown_author''))"

definition QuotesSpider :: "ExampleItem Spider" where
  "QuotesSpider =
     \<lparr>get_doris_target = Some (quotes_get_doris_target (Some ''demo'') (Some ''quotes'')),
      doris_database = Some (Some ''demo''), doris_table = Some (Some ''quotes'')\<rparr>"

definition anonymous_quote :: ExampleItem where
  "anonymous_quote = [(''title'', Some ''a quote''), (''url'', Some ''http://quotes.toscrape.com/''),
                      (''description'', None)]"

definition attributed_quote :: ExampleItem where
  "attributed_quote = [(''title'', Some ''another quote''), (''url'', Some ''http://quotes.toscrape.com/''),
                       (''description'', Some ''Jane Austen'')]"

text \<open>
  A loader with the user, password and label prefix of settings.py and no extra headers;
  one with an extra header of Doris; one whose extra headers set a label.
\<close>

definition demo_loader :: DorisStreamLoader where
  "demo_loader =
     \<lparr>host = ''http://doris:8030'', user = ''root'', password = [], label_prefix = ''scrapy'',
      extra_headers = []\<rparr>"



text \<open>
  A pipeline with the defaults of settings.py (database \<open>demo\<close>, table \<open>items\<close>,
  batches of 50), before any item.
\<close>

definition settings_pipeline :: "ExampleItem DorisPipeline" where
  "settings_pipeline =
     \<lparr>loader = demo_loader, default_database = ''demo'', default_table = ''items'',
      batch_size = 50, buffers = []\<rparr>"

text \<open>
  Networks: every call succeeds; every call gets HTTP 500; only the second call fails;
  only the first call fails. In all of them the \<open>n\<close>-th token is a string of \<open>n + 1\<close> digits.
\<close>

definition unary_token :: "nat \<Rightarrow> string" where
  "unary_token n = replicate (Suc n) (CHR ''1'')"

definition env_ok :: environment where
  "env_ok = \<lparr>uuid4 = unary_token, urlopen = (\<lambda>n. None)\<rparr>"

definition env_500 :: environment where
  "env_500 = \<lparr>uuid4 = unary_token, urlopen = (\<lambda>n. Some (HTTPError 500))\<rparr>"

definition env_second_500 :: environment where
  "env_second_500 =
     \<lparr>uuid4 = unary_token, urlopen = (\<lambda>n. if n = 1 then Some (HTTPError 500) else None)\<rparr>"

definition env_first_500 :: environment where
  "env_first_500 =
     \<lparr>uuid4 = unary_token, urlopen = (\<lambda>n. if n = 0 then Some (HTTPError 500) else None)\<rparr>"

definition one_buffer :: "ExampleItem DorisPipeline" where
  "one_buffer = settings_pipeline\<lparr>buffers := [((''demo'', ''quotes''), [anonymous_quote])]\<rparr>"

definition two_buffers :: "ExampleItem DorisPipeline" where
  "two_buffers = settings_pipeline
     \<lparr>buffers := [((''demo'', ''quotes''), [anonymous_quote]),
                  ((''demo'', ''authors''), [anonymous_quote])]\<rparr>"

definition batch_of_zero :: "ExampleItem DorisPipeline" where
  "batch_of_zero = settings_pipeline\<lparr>batch_size := 0\<rparr>"

definition batch_of_two :: "ExampleItem DorisPipeline" where
  "batch_of_two = settings_pipeline\<lparr>batch_size := 2\<rparr>"



text \<open>
  A pipeline built directly with an empty default table, and a spider that declares only
  \<open>doris_table\<close>: no \<open>get_doris_target\<close>, no \<open>doris_database\<close> attribute.
\<close>

definition database_only_pipeline :: "ExampleItem DorisPipeline" where
  "database_only_pipeline = settings_pipeline\<lparr>default_database := ''db'', default_table := []\<rparr>"

definition table_only_spider :: "ExampleItem Spider" where
  "table_only_spider =
     \<lparr>get_doris_target = None, doris_database = None, doris_table = Some (Some ''t'')\<rparr>"

definition bare_spider :: "ExampleItem Spider" where
  "bare_spider = \<lparr>get_doris_target = None, doris_database = None, doris_table = None\<rparr>"

definition no_defaults_pipeline :: "ExampleItem DorisPipeline" where
  "no_defaults_pipeline = settings_pipeline\<lparr>default_database := [], default_table := []\<rparr>"

text \<open>
  A middleware on an empty proxy collection, without fallback; one on a collection that
  always offers a proxy; and two requests.
\<close>

definition empty_store_middleware :: RedisProxyMiddleware where
  "empty_store_middleware =
     \<lparr>proxy_key = ''scrapy:proxies'', encoding = ''utf-8'', fallback_proxy = None,
      client = Some (\<lambda>key n. Nil)\<rparr>"

definition stocked_middleware :: RedisProxyMiddleware where
  "stocked_middleware =
     \<lparr>proxy_key = ''scrapy:proxies'', encoding = ''utf-8'',
      fallback_proxy = Some ''http://10.0.0.9:3128'',
      client = Some (\<lambda>key n. Str ''http://10.0.0.2:8080'')\<rparr>"

definition latin_decode :: "string \<Rightarrow> 8 word list \<Rightarrow> string" where
  "latin_decode enc bs = map (\<lambda>b. char_of (unat b)) bs"

definition plain_request :: Request where
  "plain_request = \<lparr>meta = Map.empty\<rparr>"

definition proxied_request :: Request where
  "proxied_request = \<lparr>meta = [''proxy'' \<mapsto> Some ''http://10.0.0.1:3128'']\<rparr>"

section \<open>Evaluating the configurations\<close>

lemmas configurations =
  settings_pipeline_def QuotesSpider_def anonymous_quote_def attributed_quote_def
  quotes_get_doris_target_def adapter_get_def py_or_def demo_loader_def env_ok_def env_500_def
  env_first_500_def env_second_500_def one_buffer_def two_buffers_def batch_of_zero_def batch_of_two_def
  database_only_pipeline_def table_only_spider_def bare_spider_def no_defaults_pipeline_def

lemmas operations =
  truthy_def resolve_target_def flush_def load_def stream_load_request_def generate_label_def
  process_item_def close_spider_def buffer_at_def setdefault_def calls_for_def call_sizes_def
  batches_for_def Let_def

section \<open>The dict operations\<close>

lemma map_of_setdefault:
  "map_of (setdefault k v d) k' = (if k' = k \<and> map_of d k = None then Some v else map_of d k')"
  by (auto simp: setdefault_def map_add_def split: option.splits)

lemma buffer_at_update:
  "buffer_at (self\<lparr>buffers := AList.update k v (buffers self)\<rparr>) k' =
     (if k' = k then v else buffer_at self k')"
  by (simp add: buffer_at_def update_conv')

lemma resolve_target_buffers:
  "resolve_target (self\<lparr>buffers := b\<rparr>) spider item = resolve_target self spider item"
  by (simp add: resolve_target_def)

lemma buffer_at_nonempty_key: "buffer_at self k \<noteq> [] \<Longrightarrow> k \<in> set (map fst (buffers self))"
  by (auto simp: buffer_at_def split: option.splits dest: map_of_SomeD intro: rev_image_eqI)

section \<open>flush\<close>

lemma flush_empty:
  "buffer_at self (database, table) = [] \<Longrightarrow> flush env database table (self, net) = (Inr (), self, net)"
  by (simp add: flush_def)

lemma flush_raises:
  "buffer_at self (database, table) \<noteq> [] \<Longrightarrow> urlopen env (length net) = Some e \<Longrightarrow>
   flush env database table (self, net) =
     (Inl e, self,
      net @ [stream_load_request env (loader self) database table
               (buffer_at self (database, table)) (length net)])"
  by (simp add: flush_def load_def Let_def)

lemma flush_returns:
  "buffer_at self (database, table) \<noteq> [] \<Longrightarrow> urlopen env (length net) = None \<Longrightarrow>
   flush env database table (self, net) =
     (Inr (), self\<lparr>buffers := AList.update (database, table) [] (buffers self)\<rparr>,
      net @ [stream_load_request env (loader self) database table
               (buffer_at self (database, table)) (length net)])"
  by (simp add: flush_def load_def Let_def)

lemma flush_cases:
  obtains
    (empty) "buffer_at self (database, table) = []"
      "flush env database table (self, net) = (Inr (), self, net)"
  | (raises) e where "buffer_at self (database, table) \<noteq> []" "urlopen env (length net) = Some e"
      "flush env database table (self, net) =
         (Inl e, self,
          net @ [stream_load_request env (loader self) database table
                   (buffer_at self (database, table)) (length net)])"
  | (returns) "buffer_at self (database, table) \<noteq> []" "urlopen env (length net) = None"
      "flush env database table (self, net) =
         (Inr (), self\<lparr>buffers := AList.update (database, table) [] (buffers self)\<rparr>,
          net @ [stream_load_request env (loader self) database table
                   (buffer_at self (database, table)) (length net)])"
proof (cases "buffer_at self (database, table) = []")
  case True
  then show ?thesis using empty flush_empty by blast
next
  case nonempty: False
  show ?thesis
  proof (cases "urlopen env (length net)")
    case None
    then show ?thesis using nonempty returns flush_returns by blast
  next
    case (Some e)
    then show ?thesis using nonempty raises flush_raises by blast
  qed
qed

lemma flush_other_key:
  "key \<noteq> (database, table) \<Longrightarrow>
   map_of (buffers (fst (snd (flush env database table (self, net))))) key = map_of (buffers self) key"
  by (cases rule: flush_cases [of self database table env net]) (simp_all add: update_conv')

section \<open>process_item\<close>

lemma process_item_unresolved:
  "resolve_target self spider item = Inl e \<Longrightarrow>
   process_item env spider item (self, net) = (Inl e, self, net)"
  by (simp add: process_item_def)

text \<open>The pipeline after the append, before the size test.\<close>

lemma process_item_resolved:
  assumes "resolve_target self spider item = Inr (database, table)"
  shows "process_item env spider item (self, net) =
     (let buffer = buffer_at self (database, table) @ [item];
          self' = self\<lparr>buffers := AList.update (database, table) buffer
                                     (setdefault (database, table) [] (buffers self))\<rparr>
      in if batch_size self \<le> int (length buffer)
         then (case flush env database table (self', net) of
                 (Inl e, st') \<Rightarrow> (Inl e, st')
               | (Inr u, st') \<Rightarrow> (Inr item, st'))
         else (Inr item, self', net))"
  using assms
  by (simp add: process_item_def Let_def buffer_at_def map_of_setdefault split: option.splits)

lemma process_item_other_key:
  assumes "resolve_target self spider item = Inr (database, table)" "key \<noteq> (database, table)"
  shows "map_of (buffers (fst (snd (process_item env spider item (self, net))))) key =
         map_of (buffers self) key"
proof -
  define self' where "self' = self\<lparr>buffers := AList.update (database, table)
      (buffer_at self (database, table) @ [item]) (setdefault (database, table) [] (buffers self))\<rparr>"
  have before: "map_of (buffers self') key = map_of (buffers self) key"
    using assms(2) by (simp add: self'_def update_conv' map_of_setdefault)
  have after: "map_of (buffers (fst (snd (flush env database table (self', net))))) key =
               map_of (buffers self') key"
    using assms(2) by (rule flush_other_key)
  show ?thesis
    using before after
    by (auto simp: process_item_resolved [OF assms(1)] Let_def self'_def [symmetric]
          split: prod.splits sum.splits)
qed

section \<open>close_spider\<close>

lemma close_loop_raised:
  "close_loop env ks st = (Inl e, st') \<Longrightarrow>
   snd st' \<noteq> [] \<and> urlopen env (length (snd st') - 1) = Some e \<and>
   (\<exists>k\<in>set ks. buffer_at (fst st') k \<noteq> [])"
proof (induction env ks st rule: close_loop.induct)
  case (1 env st)
  then show ?case by simp
next
  case (2 env database table ks st)
  obtain self net where st: "st = (self, net)" by (cases st)
  show ?case
  proof (cases rule: flush_cases [of self database table env net])
    case empty
    then show ?thesis using 2 st by auto
  next
    case (raises e')
    then show ?thesis using 2 st by auto
  next
    case returns
    then show ?thesis using 2 st by auto
  qed
qed

section \<open>The keys of the dict stay distinct\<close>

lemma setdefault_keys_distinct:
  "distinct (map fst d) \<Longrightarrow> distinct (map fst (setdefault k v d))"
  by (auto simp: setdefault_def map_of_eq_None_iff split: option.splits)

lemma flush_keys_distinct:
  "distinct (map fst (buffers self)) \<Longrightarrow>
   distinct (map fst (buffers (fst (snd (flush env database table (self, net))))))"
  by (cases rule: flush_cases [of self database table env net]) (simp_all add: distinct_update)

lemma process_item_keys_distinct:
  assumes "distinct (map fst (buffers self))"
  shows "distinct (map fst (buffers (fst (snd (process_item env spider item (self, net))))))"
proof (cases "resolve_target self spider item")
  case (Inl e)
  then show ?thesis using assms by (simp add: process_item_unresolved)
next
  case (Inr key)
  obtain database table where "key = (database, table)" by (cases key)
  then have res: "resolve_target self spider item = Inr (database, table)"
    using Inr by simp
  define self' where "self' = self\<lparr>buffers := AList.update (database, table)
      (buffer_at self (database, table) @ [item]) (setdefault (database, table) [] (buffers self))\<rparr>"
  have appended: "distinct (map fst (buffers self'))"
    using assms by (simp add: self'_def distinct_update setdefault_keys_distinct)
  then have "distinct (map fst (buffers (fst (snd (flush env database table (self', net))))))"
    by (rule flush_keys_distinct)
  then show ?thesis
    using appended
    by (auto simp: process_item_resolved [OF res] Let_def self'_def [symmetric]
          split: prod.splits sum.splits)
qed

lemma submit_all_keys_distinct:
  "distinct (map fst (buffers (fst st))) \<Longrightarrow>
   distinct (map fst (buffers (fst (submit_all env subs st))))"
proof (induction subs arbitrary: st)
  case Nil
  then show ?case by simp
next
  case (Cons s subs)
  obtain spider item where s: "s = (spider, item)" by (cases s)
  obtain self net where st: "st = (self, net)" by (cases st)
  have "distinct (map fst (buffers (fst (snd (process_item env spider item st)))))"
    using Cons.prems process_item_keys_distinct by (simp add: st)
  then show ?case
    using Cons.IH by (simp add: s)
qed

section \<open>A shutdown that meets a failing load\<close>

lemma close_loop_fails:
  "distinct ks \<Longrightarrow>
   filter (\<lambda>k. buffer_at self k \<noteq> []) ks = drained @ k # rest \<Longrightarrow>
   \<forall>i<length drained. urlopen env (length net + i) = None \<Longrightarrow>
   urlopen env (length net + length drained) = Some e \<Longrightarrow>
   \<exists>self' net'. close_loop env ks (self, net) = (Inl e, self', net') \<and>
     length net' = length net + length drained + 1 \<and>
     (\<forall>k'. buffer_at self' k' = (if k' \<in> set drained then [] else buffer_at self k'))"
proof (induction ks arbitrary: self net drained)
  case Nil
  then show ?case by simp
next
  case (Cons key ks)
  obtain database table where key: "key = (database, table)" by (cases key)
  have ks: "distinct ks" and fresh: "key \<notin> set ks"
    using Cons.prems(1) by simp_all
  show ?case
  proof (cases "buffer_at self key = []")
    case True
    then have "filter (\<lambda>k. buffer_at self k \<noteq> []) ks = drained @ k # rest"
      using Cons.prems(2) by simp
    then obtain self' net' where
      "close_loop env ks (self, net) = (Inl e, self', net')"
      "length net' = length net + length drained + 1"
      "\<forall>k'. buffer_at self' k' = (if k' \<in> set drained then [] else buffer_at self k')"
      using Cons.IH [OF ks _ Cons.prems(3) Cons.prems(4)] by blast
    then show ?thesis
      using True by (intro exI [of _ self'] exI [of _ net']) (simp add: key)
  next
    case False
    then have split: "key # filter (\<lambda>k. buffer_at self k \<noteq> []) ks = drained @ k # rest"
      using Cons.prems(2) by simp
    let ?request = "stream_load_request env (loader self) database table
                      (buffer_at self (database, table)) (length net)"
    show ?thesis
    proof (cases drained)
      case Nil
      then have "urlopen env (length net) = Some e"
        using Cons.prems(4) by simp
      then have "flush env database table (self, net) = (Inl e, self, net @ [?request])"
        using False by (simp add: flush_raises key)
      then have "close_loop env (key # ks) (self, net) = (Inl e, self, net @ [?request])"
        using False by (simp add: key)
      then show ?thesis
        using Nil by (intro exI [of _ self] exI [of _ "net @ [?request]"]) simp
    next
      case (Cons d drained')
      then have d: "d = key" and later: "filter (\<lambda>k. buffer_at self k \<noteq> []) ks = drained' @ k # rest"
        using split by simp_all
      let ?self1 = "self\<lparr>buffers := AList.update (database, table) [] (buffers self)\<rparr>"
      let ?net1 = "net @ [?request]"
      have at1: "\<And>k'. buffer_at ?self1 k' = (if k' = key then [] else buffer_at self k')"
        by (simp add: buffer_at_update key)
      have "urlopen env (length net) = None"
        using Cons.prems(3) Cons by auto
      then have fl: "flush env database table (self, net) = (Inr (), ?self1, ?net1)"
        using False by (simp add: flush_returns key)
      have "filter (\<lambda>k. buffer_at ?self1 k \<noteq> []) ks = filter (\<lambda>k. buffer_at self k \<noteq> []) ks"
        using fresh by (intro filter_cong) (auto simp: at1)
      then have later1: "filter (\<lambda>k. buffer_at ?self1 k \<noteq> []) ks = drained' @ k # rest"
        using later by simp
      have accepted1: "\<forall>i<length drained'. urlopen env (length ?net1 + i) = None"
      proof (intro allI impI)
        fix i assume "i < length drained'"
        then have "Suc i < length drained"
          using Cons by simp
        then have "urlopen env (length net + Suc i) = None"
          using Cons.prems(3) by blast
        then show "urlopen env (length ?net1 + i) = None" by simp
      qed
      have refused1: "urlopen env (length ?net1 + length drained') = Some e"
        using Cons.prems(4) Cons by simp
      obtain self' net' where
        run: "close_loop env ks (?self1, ?net1) = (Inl e, self', net')"
        and len: "length net' = length ?net1 + length drained' + 1"
        and at: "\<forall>k'. buffer_at self' k' = (if k' \<in> set drained' then [] else buffer_at ?self1 k')"
        using Cons.IH [OF ks later1 accepted1 refused1] by blast
      have "close_loop env (key # ks) (self, net) = (Inl e, self', net')"
        using False fl run by (simp add: key)
      moreover have "length net' = length net + length drained + 1"
        using len Cons by simp
      moreover have "\<forall>k'. buffer_at self' k' = (if k' \<in> set drained then [] else buffer_at self k')"
        using at by (simp add: at1 Cons d)
      ultimately show ?thesis
        by (intro exI [of _ self'] exI [of _ net']) simp
    qed
  qed
qed

lemma close_spider_fails:
  assumes "distinct (map fst (buffers self))" and "waiting self = drained @ k # rest"
    and "\<forall>i<length drained. urlopen env (length net + i) = None"
    and "urlopen env (length net + length drained) = Some e"
  shows "fst (close_spider env (self, net)) = Inl e"
    and "length (snd (snd (close_spider env (self, net)))) = length net + length drained + 1"
    and "buffer_at (fst (snd (close_spider env (self, net)))) k' =
           (if k' \<in> set drained then [] else buffer_at self k')"
proof -
  obtain self' net' where
    run: "close_loop env (map fst (buffers self)) (self, net) = (Inl e, self', net')"
    and len: "length net' = length net + length drained + 1"
    and at: "\<forall>k'. buffer_at self' k' = (if k' \<in> set drained then [] else buffer_at self k')"
    using close_loop_fails [OF assms(1) assms(2) [unfolded waiting_def] assms(3) assms(4)] by blast
  from run len at [rule_format, of k'] show "fst (close_spider env (self, net)) = Inl e"
    and "length (snd (snd (close_spider env (self, net)))) = length net + length drained + 1"
    and "buffer_at (fst (snd (close_spider env (self, net)))) k' =
           (if k' \<in> set drained then [] else buffer_at self k')"
    by (simp_all add: close_spider_def)
qed

section \<open>Runs without load failure\<close>

lemma calls_for_snoc:
  "calls_for d (net @ [stream_load_request env ldr database table recs n]) =
     calls_for d net @
       (if (database, table) = d then [stream_load_request env ldr database table recs n] else [])"
  by (simp add: calls_for_def stream_load_request_def)

lemma batches_for_snoc:
  "batches_for d (net @ [stream_load_request env ldr database table recs n]) =
     batches_for d net @ (if (database, table) = d then recs else [])"
  by (simp add: batches_for_def calls_for_snoc) (simp add: stream_load_request_def)

lemma call_records_request:
  "call_records (stream_load_request env ldr database table recs n) = recs"
  by (simp add: stream_load_request_def)

lemma buffer_at_appended:
  "buffer_at (self\<lparr>buffers := AList.update key buffer (setdefault key [] (buffers self))\<rparr>) k =
     (if k = key then buffer else buffer_at self k)"
  by (simp add: buffer_at_def update_conv' map_of_setdefault)

text \<open>What one \<open>process_item\<close> does when the network accepts every request.\<close>

lemma process_item_accepted:
  assumes ok: "\<forall>n. urlopen env n = None"
    and res: "resolve_target self spider item = Inr (database, table)"
  shows "\<exists>b. process_item env spider item (self, net) =
           (Inr item, self\<lparr>buffers := b\<rparr>,
            if batch_size self \<le> int (length (buffer_at self (database, table))) + 1
            then net @ [stream_load_request env (loader self) database table
                          (buffer_at self (database, table) @ [item]) (length net)]
            else net) \<and>
         (\<forall>k. buffer_at (self\<lparr>buffers := b\<rparr>) k =
            (if k = (database, table)
             then (if batch_size self \<le> int (length (buffer_at self (database, table))) + 1
                   then [] else buffer_at self (database, table) @ [item])
             else buffer_at self k))"
proof -
  define buffer where "buffer = buffer_at self (database, table) @ [item]"
  define d where "d = AList.update (database, table) buffer
                        (setdefault (database, table) [] (buffers self))"
  define self' where "self' = self\<lparr>buffers := d\<rparr>"
  have at': "\<And>k. buffer_at self' k = (if k = (database, table) then buffer else buffer_at self k)"
    by (simp add: self'_def d_def buffer_at_appended)
  have step: "process_item env spider item (self, net) =
     (if batch_size self \<le> int (length buffer)
      then (case flush env database table (self', net) of
              (Inl e, st') \<Rightarrow> (Inl e, st')
            | (Inr u, st') \<Rightarrow> (Inr item, st'))
      else (Inr item, self', net))"
    by (simp add: process_item_resolved [OF res] Let_def self'_def d_def buffer_def)
  show ?thesis
  proof (cases "batch_size self \<le> int (length buffer)")
    case False
    then have "process_item env spider item (self, net) = (Inr item, self\<lparr>buffers := d\<rparr>, net)"
      using step by (simp add: self'_def)
    then show ?thesis
      using False at' by (intro exI [of _ d]) (simp add: self'_def buffer_def)
  next
    case True
    have nonempty: "buffer_at self' (database, table) \<noteq> []"
      by (simp add: at' buffer_def)
    have open_ok: "urlopen env (length net) = None"
      using ok by simp
    have fl: "flush env database table (self', net) =
        (Inr (), self'\<lparr>buffers := AList.update (database, table) [] (buffers self')\<rparr>,
         net @ [stream_load_request env (loader self') database table
                  (buffer_at self' (database, table)) (length net)])"
      by (rule flush_returns [OF nonempty open_ok])
    have "process_item env spider item (self, net) =
        (Inr item, self\<lparr>buffers := AList.update (database, table) [] d\<rparr>,
         net @ [stream_load_request env (loader self) database table buffer (length net)])"
      using True step fl by (simp add: at') (simp add: self'_def)
    moreover have "\<And>k. buffer_at (self\<lparr>buffers := AList.update (database, table) [] d\<rparr>) k =
        (if k = (database, table) then [] else buffer_at self k)"
      using at' by (simp add: buffer_at_def update_conv' self'_def)
    ultimately show ?thesis
      using True by (intro exI [of _ "AList.update (database, table) [] d"]) (simp add: buffer_def)
  qed
qed

lemma submitted_for_buffers:
  "submitted_for (self\<lparr>buffers := b\<rparr>) d subs = submitted_for self d subs"
  by (simp add: submitted_for_def resolve_target_buffers)

lemma process_item_run_step:
  assumes ok: "\<forall>n. urlopen env n = None"
    and pos: "0 < batch_size self"
    and inv: "\<forall>k. int (length (buffer_at self k)) < batch_size self"
    and exact: "\<forall>c\<in>set net. int (length (call_records c)) = batch_size self"
  shows "\<exists>b net'. snd (process_item env spider item (self, net)) = (self\<lparr>buffers := b\<rparr>, net') \<and>
           (\<forall>k. int (length (buffer_at (self\<lparr>buffers := b\<rparr>) k)) < batch_size self) \<and>
           (\<forall>c\<in>set net'. int (length (call_records c)) = batch_size self) \<and>
           (\<forall>d. delivered d (self\<lparr>buffers := b\<rparr>, net') =
                  delivered d (self, net) @
                    (if resolve_target self spider item = Inr d then [item] else []))"
proof (cases "resolve_target self spider item")
  case (Inl e)
  have "snd (process_item env spider item (self, net)) = (self\<lparr>buffers := buffers self\<rparr>, net)"
    by (simp add: process_item_unresolved [OF Inl])
  then show ?thesis
    using inv exact Inl by (intro exI [of _ "buffers self"] exI [of _ net]) simp
next
  case (Inr key)
  obtain database table where key: "key = (database, table)" by (cases key)
  have res: "resolve_target self spider item = Inr (database, table)"
    using Inr key by simp
  let ?full = "batch_size self \<le> int (length (buffer_at self (database, table))) + 1"
  let ?net' = "if ?full
      then net @ [stream_load_request env (loader self) database table
                    (buffer_at self (database, table) @ [item]) (length net)]
      else net"
  obtain b where run: "process_item env spider item (self, net) =
        (Inr item, self\<lparr>buffers := b\<rparr>, ?net')"
    and at: "\<And>k. buffer_at (self\<lparr>buffers := b\<rparr>) k =
        (if k = (database, table)
         then (if ?full then [] else buffer_at self (database, table) @ [item])
         else buffer_at self k)"
    using process_item_accepted [OF ok res, of net] by blast
  have len: "int (length (buffer_at self (database, table))) < batch_size self"
    using inv by blast
  have inv': "\<forall>k. int (length (buffer_at (self\<lparr>buffers := b\<rparr>) k)) < batch_size self"
    using inv pos by (simp add: at)
  have exact': "\<forall>c\<in>set ?net'. int (length (call_records c)) = batch_size self"
    using exact len by (auto simp: call_records_request)
  have deliv: "\<forall>d. delivered d (self\<lparr>buffers := b\<rparr>, ?net') =
      delivered d (self, net) @ (if resolve_target self spider item = Inr d then [item] else [])"
    by (auto simp: delivered_def at batches_for_snoc res)
  show ?thesis
    using run inv' exact' deliv by (intro exI [of _ b] exI [of _ ?net']) simp
qed

lemma submit_all_run:
  assumes ok: "\<forall>n. urlopen env n = None"
  shows "0 < batch_size self \<Longrightarrow>
         \<forall>k. int (length (buffer_at self k)) < batch_size self \<Longrightarrow>
         \<forall>c\<in>set net. int (length (call_records c)) = batch_size self \<Longrightarrow>
         \<exists>b net'. submit_all env subs (self, net) = (self\<lparr>buffers := b\<rparr>, net') \<and>
           (\<forall>k. int (length (buffer_at (self\<lparr>buffers := b\<rparr>) k)) < batch_size self) \<and>
           (\<forall>c\<in>set net'. int (length (call_records c)) = batch_size self) \<and>
           (\<forall>d. delivered d (self\<lparr>buffers := b\<rparr>, net') =
                  delivered d (self, net) @ submitted_for self d subs)"
proof (induction subs arbitrary: self net)
  case Nil
  then show ?case
    by (intro exI [of _ "buffers self"] exI [of _ net]) (simp add: submitted_for_def)
next
  case (Cons s subs)
  obtain spider item where s: "s = (spider, item)" by (cases s)
  obtain b1 net1 where
    step: "snd (process_item env spider item (self, net)) = (self\<lparr>buffers := b1\<rparr>, net1)"
    and inv1: "\<forall>k. int (length (buffer_at (self\<lparr>buffers := b1\<rparr>) k)) < batch_size self"
    and exact1: "\<forall>c\<in>set net1. int (length (call_records c)) = batch_size self"
    and deliv1: "\<forall>d. delivered d (self\<lparr>buffers := b1\<rparr>, net1) =
        delivered d (self, net) @ (if resolve_target self spider item = Inr d then [item] else [])"
    using process_item_run_step [OF ok Cons.prems, of spider item] by blast
  let ?self1 = "self\<lparr>buffers := b1\<rparr>"
  have "\<exists>b net'. submit_all env subs (?self1, net1) = (?self1\<lparr>buffers := b\<rparr>, net') \<and>
           (\<forall>k. int (length (buffer_at (?self1\<lparr>buffers := b\<rparr>) k)) < batch_size ?self1) \<and>
           (\<forall>c\<in>set net'. int (length (call_records c)) = batch_size ?self1) \<and>
           (\<forall>d. delivered d (?self1\<lparr>buffers := b\<rparr>, net') =
                  delivered d (?self1, net1) @ submitted_for ?self1 d subs)"
    using Cons.prems(1) inv1 exact1 by (intro Cons.IH) simp_all
  then obtain b net' where
    rest: "submit_all env subs (?self1, net1) = (self\<lparr>buffers := b\<rparr>, net')"
    and inv': "\<forall>k. int (length (buffer_at (self\<lparr>buffers := b\<rparr>) k)) < batch_size self"
    and exact': "\<forall>c\<in>set net'. int (length (call_records c)) = batch_size self"
    and deliv': "\<forall>d. delivered d (self\<lparr>buffers := b\<rparr>, net') =
        delivered d (?self1, net1) @ submitted_for self d subs"
    by (auto simp: submitted_for_buffers)
  have run: "submit_all env (s # subs) (self, net) = (self\<lparr>buffers := b\<rparr>, net')"
    using step rest by (simp add: s)
  have "\<forall>d. delivered d (self\<lparr>buffers := b\<rparr>, net') =
      delivered d (self, net) @ submitted_for self d (s # subs)"
    using deliv' deliv1 by (simp add: submitted_for_def s)
  then show ?case
    using run inv' exact' by (intro exI [of _ b] exI [of _ net']) simp
qed

lemma close_loop_run:
  assumes ok: "\<forall>n. urlopen env n = None"
  shows "\<exists>b net'. close_loop env ks (self, net) = (Inr (), self\<lparr>buffers := b\<rparr>, net') \<and>
           (\<forall>k. buffer_at (self\<lparr>buffers := b\<rparr>) k = (if k \<in> set ks then [] else buffer_at self k)) \<and>
           (\<forall>c\<in>set net'. c \<in> set net \<or> (\<exists>k. call_records c = buffer_at self k \<and> buffer_at self k \<noteq> [])) \<and>
           (\<forall>d. map (\<lambda>c. length (call_records c)) (calls_for d net') =
                  map (\<lambda>c. length (call_records c)) (calls_for d net) @
                    (if d \<in> set ks \<and> buffer_at self d \<noteq> [] then [length (buffer_at self d)] else [])) \<and>
           (\<forall>d. batches_for d net' =
                  batches_for d net @ (if d \<in> set ks then buffer_at self d else []))"
proof (induction ks arbitrary: self net)
  case Nil
  show ?case
    by (intro exI [of _ "buffers self"] exI [of _ net]) simp
next
  case (Cons key ks)
  obtain database table where key: "key = (database, table)" by (cases key)
  show ?case
  proof (cases "buffer_at self (database, table) = []")
    case True
    obtain b net' where
      run: "close_loop env ks (self, net) = (Inr (), self\<lparr>buffers := b\<rparr>, net')"
      and at: "\<forall>k. buffer_at (self\<lparr>buffers := b\<rparr>) k = (if k \<in> set ks then [] else buffer_at self k)"
      and calls: "\<forall>c\<in>set net'. c \<in> set net \<or> (\<exists>k. call_records c = buffer_at self k \<and> buffer_at self k \<noteq> [])"
      and sizes: "\<forall>d. map (\<lambda>c. length (call_records c)) (calls_for d net') =
                  map (\<lambda>c. length (call_records c)) (calls_for d net) @
                    (if d \<in> set ks \<and> buffer_at self d \<noteq> [] then [length (buffer_at self d)] else [])"
      and batches: "\<forall>d. batches_for d net' =
                  batches_for d net @ (if d \<in> set ks then buffer_at self d else [])"
      using Cons.IH [of self net] by blast
    have "close_loop env (key # ks) (self, net) = (Inr (), self\<lparr>buffers := b\<rparr>, net')"
      using True run by (simp add: key)
    then show ?thesis
      using True at calls sizes batches
      by (intro exI [of _ b] exI [of _ net']) (auto simp: key)
  next
    case False
    let ?self1 = "self\<lparr>buffers := AList.update (database, table) [] (buffers self)\<rparr>"
    let ?net1 = "net @ [stream_load_request env (loader self) database table
                          (buffer_at self (database, table)) (length net)]"
    have fl: "flush env database table (self, net) = (Inr (), ?self1, ?net1)"
      using False ok by (simp add: flush_returns)
    have at1: "\<And>k. buffer_at ?self1 k = (if k = (database, table) then [] else buffer_at self k)"
      by (simp add: buffer_at_update)
    obtain b net' where
      run: "close_loop env ks (?self1, ?net1) = (Inr (), ?self1\<lparr>buffers := b\<rparr>, net')"
      and at: "\<forall>k. buffer_at (?self1\<lparr>buffers := b\<rparr>) k = (if k \<in> set ks then [] else buffer_at ?self1 k)"
      and calls: "\<forall>c\<in>set net'. c \<in> set ?net1 \<or> (\<exists>k. call_records c = buffer_at ?self1 k \<and> buffer_at ?self1 k \<noteq> [])"
      and sizes: "\<forall>d. map (\<lambda>c. length (call_records c)) (calls_for d net') =
                  map (\<lambda>c. length (call_records c)) (calls_for d ?net1) @
                    (if d \<in> set ks \<and> buffer_at ?self1 d \<noteq> [] then [length (buffer_at ?self1 d)] else [])"
      and batches: "\<forall>d. batches_for d net' =
                  batches_for d ?net1 @ (if d \<in> set ks then buffer_at ?self1 d else [])"
      using Cons.IH [of ?self1 ?net1] by blast
    have run': "close_loop env (key # ks) (self, net) = (Inr (), self\<lparr>buffers := b\<rparr>, net')"
      using False fl run by (simp add: key)
    have at': "\<forall>k. buffer_at (self\<lparr>buffers := b\<rparr>) k =
        (if k \<in> set (key # ks) then [] else buffer_at self k)"
      using at by (simp add: at1 key)
    have calls': "\<forall>c\<in>set net'. c \<in> set net \<or> (\<exists>k. call_records c = buffer_at self k \<and> buffer_at self k \<noteq> [])"
    proof
      fix c assume "c \<in> set net'"
      then consider "c \<in> set net"
        | "c = stream_load_request env (loader self) database table
                 (buffer_at self (database, table)) (length net)"
        | k where "call_records c = buffer_at ?self1 k" "buffer_at ?self1 k \<noteq> []"
        using calls by auto
      then show "c \<in> set net \<or> (\<exists>k. call_records c = buffer_at self k \<and> buffer_at self k \<noteq> [])"
      proof cases
        case 1
        then show ?thesis by simp
      next
        case 2
        then show ?thesis using False by (auto simp: call_records_request)
      next
        case 3
        then have "k \<noteq> (database, table)" by (auto simp: at1)
        then have "call_records c = buffer_at self k \<and> buffer_at self k \<noteq> []"
          using 3 by (simp add: at1)
        then show ?thesis by blast
      qed
    qed
    have sizes': "\<forall>d. map (\<lambda>c. length (call_records c)) (calls_for d net') =
        map (\<lambda>c. length (call_records c)) (calls_for d net) @
          (if d \<in> set (key # ks) \<and> buffer_at self d \<noteq> [] then [length (buffer_at self d)] else [])"
      using sizes False by (auto simp: at1 key calls_for_snoc call_records_request)
    have batches': "\<forall>d. batches_for d net' =
        batches_for d net @ (if d \<in> set (key # ks) then buffer_at self d else [])"
      using batches by (auto simp: at1 key batches_for_snoc)
    show ?thesis
      using run' at' calls' sizes' batches'
      by (intro exI [of _ b] exI [of _ net']) simp
  qed
qed

lemma ceiling_batches:
  fixes n b :: nat
  assumes "0 < b"
  shows "\<lceil>real n / real b\<rceil> = int (n div b + (if n mod b = 0 then 0 else 1))"
proof -
  have "\<lceil>real n / real b\<rceil> = \<lceil>real_of_int (int n) / real_of_int (int b)\<rceil>" by simp
  also have "\<dots> = - (- int n div int b)" by (rule ceiling_divide_eq_div)
  also have "\<dots> = (if int n mod int b = 0 then int n div int b else int n div int b + 1)"
    using assms by (simp add: zdiv_zminus1_eq_if)
  also have "\<dots> = (if int (n mod b) = 0 then int (n div b) else int (n div b) + 1)"
    by (simp only: of_nat_mod of_nat_div)
  also have "\<dots> = int (n div b + (if n mod b = 0 then 0 else 1))"
    by simp
  finally show ?thesis .
qed

lemma quotient_remainder:
  fixes q r b n :: nat
  assumes "q * b + r = n" "r < b"
  shows "q = n div b \<and> r = n mod b"
  using assms by fastforce

lemma length_batches_exact:
  "\<forall>c\<in>set net. length (call_records c) = b \<Longrightarrow>
   length (batches_for d net) = length (calls_for d net) * b"
  by (induction net) (auto simp: batches_for_def calls_for_def)

lemma empty_pipeline_buffers: "buffers self = [] \<Longrightarrow> buffer_at self k = []"
  by (simp add: buffer_at_def)

text \<open>A whole run: the submissions, then the shutdown, on a network that accepts everything.\<close>

lemma run_accepted:
  assumes pos: "0 < batch_size self" and fresh: "buffers self = []"
    and ok: "\<forall>n. urlopen env n = None"
  obtains self1 net1 self2 net2 where
    "submit_all env subs (self, []) = (self1, net1)"
    "close_spider env (self1, net1) = (Inr (), self2, net2)"
    "\<forall>k. int (length (buffer_at self1 k)) < batch_size self"
    "\<forall>c\<in>set net1. int (length (call_records c)) = batch_size self"
    "\<forall>d. batches_for d net1 @ buffer_at self1 d = submitted_for self d subs"
    "\<forall>c\<in>set net2. c \<in> set net1 \<or> (\<exists>k. call_records c = buffer_at self1 k \<and> buffer_at self1 k \<noteq> [])"
    "\<forall>d. map (\<lambda>c. length (call_records c)) (calls_for d net2) =
          map (\<lambda>c. length (call_records c)) (calls_for d net1) @
            (if buffer_at self1 d \<noteq> [] then [length (buffer_at self1 d)] else [])"
    "\<forall>d. batches_for d net2 = submitted_for self d subs"
proof -
  have inv0: "\<forall>k. int (length (buffer_at self k)) < batch_size self"
    using pos fresh by (simp add: empty_pipeline_buffers)
  have exact0: "\<forall>c\<in>set ([] :: 'a load_call list). int (length (call_records c)) = batch_size self"
    by simp
  obtain b1 net1 where
    sub: "submit_all env subs (self, []) = (self\<lparr>buffers := b1\<rparr>, net1)"
    and inv1: "\<forall>k. int (length (buffer_at (self\<lparr>buffers := b1\<rparr>) k)) < batch_size self"
    and exact1: "\<forall>c\<in>set net1. int (length (call_records c)) = batch_size self"
    and deliv1: "\<forall>d. delivered d (self\<lparr>buffers := b1\<rparr>, net1) =
                  delivered d (self, []) @ submitted_for self d subs"
    using submit_all_run [OF ok pos inv0 exact0, of subs] by blast
  let ?self1 = "self\<lparr>buffers := b1\<rparr>"
  let ?ks = "map fst (buffers ?self1)"
  have keys: "\<And>d. d \<notin> set ?ks \<Longrightarrow> buffer_at ?self1 d = []"
    using buffer_at_nonempty_key [of ?self1] by blast
  obtain b2 net2 where
    close: "close_loop env ?ks (?self1, net1) = (Inr (), ?self1\<lparr>buffers := b2\<rparr>, net2)"
    and calls2: "\<forall>c\<in>set net2. c \<in> set net1 \<or>
                   (\<exists>k. call_records c = buffer_at ?self1 k \<and> buffer_at ?self1 k \<noteq> [])"
    and sizes2: "\<forall>d. map (\<lambda>c. length (call_records c)) (calls_for d net2) =
                  map (\<lambda>c. length (call_records c)) (calls_for d net1) @
                    (if d \<in> set ?ks \<and> buffer_at ?self1 d \<noteq> [] then [length (buffer_at ?self1 d)] else [])"
    and batches2: "\<forall>d. batches_for d net2 =
                  batches_for d net1 @ (if d \<in> set ?ks then buffer_at ?self1 d else [])"
    using close_loop_run [OF ok, of ?ks ?self1 net1] by blast
  have d1: "\<forall>d. batches_for d net1 @ buffer_at ?self1 d = submitted_for self d subs"
    using deliv1 fresh by (simp add: delivered_def batches_for_def calls_for_def empty_pipeline_buffers)
  have c2: "close_spider env (?self1, net1) = (Inr (), ?self1\<lparr>buffers := b2\<rparr>, net2)"
    using close by (simp add: close_spider_def)
  have s2: "\<forall>d. map (\<lambda>c. length (call_records c)) (calls_for d net2) =
          map (\<lambda>c. length (call_records c)) (calls_for d net1) @
            (if buffer_at ?self1 d \<noteq> [] then [length (buffer_at ?self1 d)] else [])"
    using sizes2 keys by auto
  have b2: "\<forall>d. batches_for d net2 = submitted_for self d subs"
  proof
    fix d
    have "batches_for d net2 = batches_for d net1 @ buffer_at ?self1 d"
      using batches2 [rule_format, of d] keys [of d] by (cases "d \<in> set ?ks") simp_all
    then show "batches_for d net2 = submitted_for self d subs"
      using d1 [rule_format, of d] by simp
  qed
  show thesis
    using that [OF sub c2 inv1 exact1 d1 calls2 s2 b2] .
qed

lemma submitted_for_all:
  "\<forall>s\<in>set subs. resolve_target self (fst s) (snd s) = Inr d \<Longrightarrow>
   submitted_for self d subs = map snd subs"
  by (simp add: submitted_for_def)

lemma map_constant: "\<forall>x\<in>set xs. f x = c \<Longrightarrow> map f xs = replicate (length xs) c"
  by (induction xs) simp_all

section \<open>Resolution and the proxy middleware\<close>

lemma resolve_target_raises:
  assumes "(\<not> truthy (fst (override_tier spider item)) \<and> \<not> truthy (fst (static_tier spider)) \<and>
            \<not> truthy (fst (global_tier self))) \<or>
           (\<not> truthy (snd (override_tier spider item)) \<and> \<not> truthy (snd (static_tier spider)) \<and>
            \<not> truthy (snd (global_tier self)))"
  shows "resolve_target self spider item = Inl ValueError"
  using assms
  by (auto simp: resolve_target_def override_tier_def static_tier_def global_tier_def truthy_def
        Let_def split: option.splits prod.splits)

lemma process_request_assigned:
  "truthy (meta_get request ''proxy'') \<Longrightarrow> process_request decode self (request, q) = (request, q)"
  by (simp add: process_request_def)

section \<open>C1\<close>

text \<open>
  C1, as the code has it. A flush of a non-empty buffer empties it only when \<open>load\<close>
  returns. When \<open>load\<close> raises, \<open>flush\<close> raises the same exception and leaves the
  pipeline as it was: the buffer keeps its records, and the next flush of that destination
  passes the very same records to \<open>load\<close> again.
\<close>

theorem flush_clears_only_after_load_returns:
  assumes "buffer_at self (database, table) \<noteq> []"
  shows "(urlopen env (length net) = None \<longrightarrow>
            fst (flush env database table (self, net)) = Inr () \<and>
            buffer_at (fst (snd (flush env database table (self, net)))) (database, table) = []) \<and>
         (\<forall>e. urlopen env (length net) = Some e \<longrightarrow>
            fst (flush env database table (self, net)) = Inl e \<and>
            fst (snd (flush env database table (self, net))) = self \<and>
            call_records (last (snd (snd (flush env database table
               (snd (flush env database table (self, net))))))) = buffer_at self (database, table))"
proof (intro conjI allI impI)
  assume ok: "urlopen env (length net) = None"
  show "fst (flush env database table (self, net)) = Inr ()"
    using assms ok by (simp add: flush_returns)
  show "buffer_at (fst (snd (flush env database table (self, net)))) (database, table) = []"
    using assms ok by (simp add: flush_returns buffer_at_update)
next
  fix e assume ko: "urlopen env (length net) = Some e"
  have first: "flush env database table (self, net) =
     (Inl e, self,
      net @ [stream_load_request env (loader self) database table
               (buffer_at self (database, table)) (length net)])"
    using assms ko by (rule flush_raises)
  show "fst (flush env database table (self, net)) = Inl e"
    by (simp add: first)
  show "fst (snd (flush env database table (self, net))) = self"
    by (simp add: first)
  show "call_records (last (snd (snd (flush env database table
               (snd (flush env database table (self, net))))))) = buffer_at self (database, table)"
    using assms
    by (cases rule: flush_cases [of self database table env
          "net @ [stream_load_request env (loader self) database table
                    (buffer_at self (database, table)) (length net)]"])
       (simp_all add: first call_records_request)
qed

text \<open>
  The theorem on a buffer of one record: the request is refused with HTTP 500 in the first
  network and accepted in the second.
\<close>

theorem flush_clears_only_after_load_returns_witness:
  "fst (flush env_500 ''demo'' ''quotes'' (one_buffer, [])) = Inl (HTTPError 500) \<and>
   fst (snd (flush env_500 ''demo'' ''quotes'' (one_buffer, []))) = one_buffer \<and>
   buffer_at (fst (snd (flush env_ok ''demo'' ''quotes'' (one_buffer, [])))) (''demo'', ''quotes'') = []"
proof -
  have nonempty: "buffer_at one_buffer (''demo'', ''quotes'') \<noteq> []"
    by (simp add: buffer_at_def one_buffer_def)
  have refused: "urlopen env_500 (length ([] :: ExampleItem load_call list)) = Some (HTTPError 500)"
    by (simp add: env_500_def)
  have accepted: "urlopen env_ok (length ([] :: ExampleItem load_call list)) = None"
    by (simp add: env_ok_def)
  show ?thesis
    using refused accepted
      flush_clears_only_after_load_returns [OF nonempty, of env_500 "[]"]
      flush_clears_only_after_load_returns [OF nonempty, of env_ok "[]"]
    by simp
qed

text \<open>
  C1 as stated fails: the endpoint answers HTTP 500, \<open>flush\<close> raises, and the buffer
  still holds its record, which \<open>close_spider\<close> then sends a second time.
\<close>

theorem failed_flush_keeps_buffer:
  "fst (flush env_500 ''demo'' ''quotes'' (one_buffer, [])) = Inl (HTTPError 500) \<and>
   buffer_at (fst (snd (flush env_500 ''demo'' ''quotes'' (one_buffer, [])))) (''demo'', ''quotes'')
     = [anonymous_quote] \<and>
   call_sizes (snd (snd (close_spider env_500
      (snd (flush env_500 ''demo'' ''quotes'' (one_buffer, [])))))) = [1, 1]"
  by (simp add: operations one_buffer_def settings_pipeline_def env_500_def)

section \<open>C2\<close>

text \<open>
  C2, as the code has it. On a network that accepts every request, \<open>close_spider\<close>
  returns normally, has passed the content of every buffer to \<open>load\<close> and leaves every
  buffer empty. A load failure is not suppressed. Let the non-empty buffers, in the order of
  the dict, be \<open>drained\<close>, then \<open>k\<close>, then \<open>rest\<close>, and let the loads of
  \<open>drained\<close> succeed and the load of \<open>k\<close> fail: then \<open>close_spider\<close> raises that
  failure, has made no request after it, has emptied the buffers of \<open>drained\<close> and has
  left every other buffer, those of \<open>k\<close> and \<open>rest\<close> among them, as it was. And
  whenever \<open>close_spider\<close> raises, the exception is that of the last request made and a
  non-empty buffer is left behind.
\<close>

theorem close_spider_stops_at_failure:
  "((\<forall>n. urlopen env n = None) \<longrightarrow>
      fst (close_spider env (self, net)) = Inr () \<and>
      (\<forall>k. buffer_at (fst (snd (close_spider env (self, net)))) k = []) \<and>
      (\<forall>d. batches_for d (snd (snd (close_spider env (self, net)))) =
            batches_for d net @ buffer_at self d)) \<and>
   (\<forall>drained k rest e.
      distinct (map fst (buffers self)) \<and> waiting self = drained @ k # rest \<and>
      (\<forall>i<length drained. urlopen env (length net + i) = None) \<and>
      urlopen env (length net + length drained) = Some e \<longrightarrow>
      fst (close_spider env (self, net)) = Inl e \<and>
      length (snd (snd (close_spider env (self, net)))) = length net + length drained + 1 \<and>
      (\<forall>k'. buffer_at (fst (snd (close_spider env (self, net)))) k' =
             (if k' \<in> set drained then [] else buffer_at self k'))) \<and>
   (\<forall>e. fst (close_spider env (self, net)) = Inl e \<longrightarrow>
      snd (snd (close_spider env (self, net))) \<noteq> [] \<and>
      urlopen env (length (snd (snd (close_spider env (self, net)))) - 1) = Some e \<and>
      (\<exists>k. buffer_at (fst (snd (close_spider env (self, net)))) k \<noteq> []))"
proof (intro conjI allI impI)
  assume ok: "\<forall>n. urlopen env n = None"
  let ?ks = "map fst (buffers self)"
  obtain b net' where
    run: "close_loop env ?ks (self, net) = (Inr (), self\<lparr>buffers := b\<rparr>, net')"
    and at: "\<forall>k. buffer_at (self\<lparr>buffers := b\<rparr>) k = (if k \<in> set ?ks then [] else buffer_at self k)"
    and batches: "\<forall>d. batches_for d net' =
                  batches_for d net @ (if d \<in> set ?ks then buffer_at self d else [])"
    using close_loop_run [OF ok, of ?ks self net] by blast
  have keys: "\<And>d. d \<notin> set ?ks \<Longrightarrow> buffer_at self d = []"
    using buffer_at_nonempty_key [of self] by blast
  show "fst (close_spider env (self, net)) = Inr ()"
    using run by (simp add: close_spider_def)
  show "buffer_at (fst (snd (close_spider env (self, net)))) k = []" for k
    using at [rule_format, of k] keys [of k] run
    by (cases "k \<in> set ?ks") (simp_all add: close_spider_def)
  show "batches_for d (snd (snd (close_spider env (self, net)))) =
          batches_for d net @ buffer_at self d" for d
    using batches [rule_format, of d] keys [of d] run
    by (cases "d \<in> set ?ks") (simp_all add: close_spider_def)
next
  fix drained k rest e k'
  assume *: "distinct (map fst (buffers self)) \<and> waiting self = drained @ k # rest \<and>
      (\<forall>i<length drained. urlopen env (length net + i) = None) \<and>
      urlopen env (length net + length drained) = Some e"
  then have keys: "distinct (map fst (buffers self))"
    and split: "waiting self = drained @ k # rest"
    and accepted: "\<forall>i<length drained. urlopen env (length net + i) = None"
    and refused: "urlopen env (length net + length drained) = Some e"
    by blast+
  show "fst (close_spider env (self, net)) = Inl e"
    by (rule close_spider_fails(1) [OF keys split accepted refused])
  show "length (snd (snd (close_spider env (self, net)))) = length net + length drained + 1"
    by (rule close_spider_fails(2) [OF keys split accepted refused])
  show "buffer_at (fst (snd (close_spider env (self, net)))) k' =
          (if k' \<in> set drained then [] else buffer_at self k')"
    by (rule close_spider_fails(3) [OF keys split accepted refused])
next
  fix e assume "fst (close_spider env (self, net)) = Inl e"
  then have "close_loop env (map fst (buffers self)) (self, net) =
      (Inl e, snd (close_spider env (self, net)))"
    by (simp add: close_spider_def prod_eq_iff)
  then have *: "snd (snd (close_spider env (self, net))) \<noteq> [] \<and>
      urlopen env (length (snd (snd (close_spider env (self, net)))) - 1) = Some e \<and>
      (\<exists>k\<in>set (map fst (buffers self)).
          buffer_at (fst (snd (close_spider env (self, net)))) k \<noteq> [])"
    by (rule close_loop_raised)
  show "snd (snd (close_spider env (self, net))) \<noteq> []" using * by simp
  show "urlopen env (length (snd (snd (close_spider env (self, net)))) - 1) = Some e"
    using * by simp
  show "\<exists>k. buffer_at (fst (snd (close_spider env (self, net)))) k \<noteq> []" using * by blast
qed

text \<open>
  The theorem on two non-empty buffers, with a network that accepts everything, with one
  that refuses the first request and with one that refuses the second.
\<close>

theorem close_spider_stops_at_failure_witness:
  "fst (close_spider env_ok (two_buffers, [])) = Inr () \<and>
   buffer_at (fst (snd (close_spider env_ok (two_buffers, [])))) (''demo'', ''authors'') = [] \<and>
   fst (close_spider env_first_500 (two_buffers, [])) = Inl (HTTPError 500) \<and>
   length (snd (snd (close_spider env_first_500 (two_buffers, [])))) = 1 \<and>
   buffer_at (fst (snd (close_spider env_first_500 (two_buffers, [])))) (''demo'', ''authors'')
     = [anonymous_quote] \<and>
   fst (close_spider env_second_500 (two_buffers, [])) = Inl (HTTPError 500) \<and>
   length (snd (snd (close_spider env_second_500 (two_buffers, [])))) = 2 \<and>
   buffer_at (fst (snd (close_spider env_second_500 (two_buffers, [])))) (''demo'', ''quotes'') = [] \<and>
   buffer_at (fst (snd (close_spider env_second_500 (two_buffers, [])))) (''demo'', ''authors'')
     = [anonymous_quote]"
proof -
  note all = close_spider_stops_at_failure [of env_ok two_buffers "[]", THEN conjunct1, rule_format]
  note one = close_spider_stops_at_failure [of env_first_500 two_buffers "[]",
      THEN conjunct2, THEN conjunct1, rule_format,
      of "[]" "(''demo'', ''quotes'')" "[(''demo'', ''authors'')]" "HTTPError 500"]
  note two = close_spider_stops_at_failure [of env_second_500 two_buffers "[]",
      THEN conjunct2, THEN conjunct1, rule_format,
      of "[(''demo'', ''quotes'')]" "(''demo'', ''authors'')" "[]" "HTTPError 500"]
  have accepted: "\<And>n. urlopen env_ok n = None"
    by (simp add: env_ok_def)
  have keys: "distinct (map fst (buffers two_buffers))"
    by (simp add: two_buffers_def settings_pipeline_def)
  have queue: "waiting two_buffers = [(''demo'', ''quotes''), (''demo'', ''authors'')]"
    by (simp add: waiting_def buffer_at_def two_buffers_def settings_pipeline_def)
  have at: "buffer_at two_buffers (''demo'', ''quotes'') = [anonymous_quote]"
    "buffer_at two_buffers (''demo'', ''authors'') = [anonymous_quote]"
    by (simp_all add: buffer_at_def two_buffers_def settings_pipeline_def)
  have first: "distinct (map fst (buffers two_buffers)) \<and>
      waiting two_buffers = [] @ (''demo'', ''quotes'') # [(''demo'', ''authors'')] \<and>
      (\<forall>i<length ([] :: (string \<times> string) list).
          urlopen env_first_500 (length ([] :: ExampleItem load_call list) + i) = None) \<and>
      urlopen env_first_500 (length ([] :: ExampleItem load_call list) +
          length ([] :: (string \<times> string) list)) = Some (HTTPError 500)"
    using keys queue by (simp add: env_first_500_def)
  have second: "distinct (map fst (buffers two_buffers)) \<and>
      waiting two_buffers = [(''demo'', ''quotes'')] @ (''demo'', ''authors'') # [] \<and>
      (\<forall>i<length [(''demo'', ''quotes'')].
          urlopen env_second_500 (length ([] :: ExampleItem load_call list) + i) = None) \<and>
      urlopen env_second_500 (length ([] :: ExampleItem load_call list) +
          length [(''demo'', ''quotes'')]) = Some (HTTPError 500)"
    using keys queue by (simp add: env_second_500_def)
  show ?thesis
    using all [OF accepted] one [OF first] two [OF second] at by simp
qed

text \<open>
  C2 as stated fails: the first flush of the shutdown gets HTTP 500; \<open>close_spider\<close>
  raises it, makes no second request although the network would accept it, and the second
  buffer keeps its record.
\<close>

theorem close_spider_abandons_later_buffers:
  "fst (close_spider env_first_500 (two_buffers, [])) = Inl (HTTPError 500) \<and>
   call_sizes (snd (snd (close_spider env_first_500 (two_buffers, [])))) = [1] \<and>
   urlopen env_first_500 1 = None \<and>
   buffer_at (fst (snd (close_spider env_first_500 (two_buffers, [])))) (''demo'', ''authors'')
     = [anonymous_quote]"
  by (simp add: operations two_buffers_def settings_pipeline_def env_first_500_def)

section \<open>C3\<close>

text \<open>
  C3 does not hold of the code. For an item without author \<open>QuotesSpider\<close>'s
  \<open>get_doris_target\<close> chooses the table \<open>quotes_unknown_author\<close>, a non-empty pair,
  but \<open>_resolve_target\<close> then overwrites it with the spider's static \<open>doris_table\<close>
  and answers \<open>(demo, quotes)\<close>.
\<close>

theorem static_attributes_override_get_doris_target:
  "quotes_get_doris_target (Some ''demo'') (Some ''quotes'') anonymous_quote =
     Some (Some ''demo'', Some ''quotes_unknown_author'') \<and>
   resolve_target settings_pipeline QuotesSpider anonymous_quote = Inr (''demo'', ''quotes'')"
  by (simp add: configurations operations)

text \<open>
  Hence the pair chosen by the override is not the resolved destination.
\<close>

theorem static_attributes_override_get_doris_target_witness:
  "resolve_target settings_pipeline QuotesSpider anonymous_quote \<noteq>
     Inr (''demo'', ''quotes_unknown_author'')"
  using static_attributes_override_get_doris_target by simp

text \<open>
  In general: a spider that has both static attributes, non-empty, always gets them as its
  destination, whatever its \<open>get_doris_target\<close> returns and whatever the defaults are.
\<close>

lemma static_attributes_win:
  assumes "doris_database spider = Some (Some db)" and "doris_table spider = Some (Some tb)"
    and "db \<noteq> []" and "tb \<noteq> []"
  shows "resolve_target self spider item = Inr (db, tb)"
  using assms
  by (simp add: resolve_target_def truthy_def Let_def split: option.splits prod.splits)

section \<open>C4\<close>

text \<open>
  C4, as the code has it. For a batch size of at least 1, a pipeline that starts empty and a
  network that accepts every request: after the submissions and the shutdown, every
  invocation of \<open>load\<close> carried at most \<open>batch_size\<close> records, and for every
  destination the records of its invocations, concatenated in call order, are exactly the
  items that resolved to it, in submission order.
\<close>

theorem batches_reconstruct_submissions:
  assumes "0 < batch_size self" and "buffers self = []" and "\<forall>n. urlopen env n = None"
  shows "(\<forall>c\<in>set (snd (snd (close_spider env (submit_all env subs (self, []))))).
            int (length (call_records c)) \<le> batch_size self) \<and>
         batches_for d (snd (snd (close_spider env (submit_all env subs (self, []))))) =
           submitted_for self d subs"
proof -
  obtain self1 net1 self2 net2 where
    sub: "submit_all env subs (self, []) = (self1, net1)"
    and close: "close_spider env (self1, net1) = (Inr (), self2, net2)"
    and inv1: "\<forall>k. int (length (buffer_at self1 k)) < batch_size self"
    and exact1: "\<forall>c\<in>set net1. int (length (call_records c)) = batch_size self"
    and deliv1: "\<forall>d. batches_for d net1 @ buffer_at self1 d = submitted_for self d subs"
    and calls2: "\<forall>c\<in>set net2. c \<in> set net1 \<or>
                   (\<exists>k. call_records c = buffer_at self1 k \<and> buffer_at self1 k \<noteq> [])"
    and sizes2: "\<forall>d. map (\<lambda>c. length (call_records c)) (calls_for d net2) =
          map (\<lambda>c. length (call_records c)) (calls_for d net1) @
            (if buffer_at self1 d \<noteq> [] then [length (buffer_at self1 d)] else [])"
    and batches2: "\<forall>d. batches_for d net2 = submitted_for self d subs"
    by (rule run_accepted [OF assms, of subs])
  have "\<forall>c\<in>set net2. int (length (call_records c)) \<le> batch_size self"
  proof
    fix c assume "c \<in> set net2"
    then consider "c \<in> set net1" | k where "call_records c = buffer_at self1 k"
      using calls2 by blast
    then show "int (length (call_records c)) \<le> batch_size self"
    proof cases
      case 1
      then show ?thesis using exact1 by simp
    next
      case 2
      then show ?thesis using inv1 [rule_format, of k] by simp
    qed
  qed
  then show ?thesis
    using batches2 [rule_format, of d] by (simp add: sub close)
qed

text \<open>
  The theorem on three items and a batch size of 2.
\<close>

theorem batches_reconstruct_submissions_witness:
  "batches_for (''demo'', ''quotes'')
     (snd (snd (close_spider env_ok (submit_all env_ok
        [(QuotesSpider, anonymous_quote), (QuotesSpider, attributed_quote),
         (QuotesSpider, anonymous_quote)] (batch_of_two, [])))))
   = [anonymous_quote, attributed_quote, anonymous_quote]"
proof -
  have pos: "0 < batch_size batch_of_two"
    by (simp add: batch_of_two_def settings_pipeline_def)
  have fresh: "buffers batch_of_two = []"
    by (simp add: batch_of_two_def settings_pipeline_def)
  have ok: "\<forall>n. urlopen env_ok n = None"
    by (simp add: env_ok_def)
  have "submitted_for batch_of_two (''demo'', ''quotes'')
      [(QuotesSpider, anonymous_quote), (QuotesSpider, attributed_quote),
       (QuotesSpider, anonymous_quote)] = [anonymous_quote, attributed_quote, anonymous_quote]"
    by (simp add: submitted_for_def configurations operations)
  then show ?thesis
    using batches_reconstruct_submissions [OF pos fresh ok, of
        "[(QuotesSpider, anonymous_quote), (QuotesSpider, attributed_quote),
          (QuotesSpider, anonymous_quote)]" "(''demo'', ''quotes'')"]
    by simp
qed

text \<open>
  C4 as stated fails for a batch size of 0: no load fails, and the first submission is
  loaded at once, one record where at most zero are allowed.
\<close>

theorem batch_size_zero_loads_one_record:
  "batch_size batch_of_zero = 0 \<and> urlopen env_ok 0 = None \<and>
   call_sizes (snd (snd (process_item env_ok QuotesSpider anonymous_quote (batch_of_zero, [])))) = [1]"
  by (simp add: configurations operations)

text \<open>
  With a batch size of 2 and a first request that is refused, the buffer is kept and the
  next submission sends three records in one invocation.
\<close>

lemma load_after_failure_exceeds_batch_size:
  "batch_size batch_of_two = 2 \<and>
   call_sizes (snd (submit_all env_first_500
      [(QuotesSpider, anonymous_quote), (QuotesSpider, attributed_quote),
       (QuotesSpider, anonymous_quote)] (batch_of_two, []))) = [2, 3]"
  by (simp add: configurations operations)

section \<open>C5\<close>

text \<open>
  C5, as the code has it. For a batch size of at least 1, a pipeline that starts empty, a
  network that accepts every request and \<open>n\<close> submissions that all resolve to one
  destination: the submissions and the shutdown make \<open>ceil(n / batch_size)\<close> invocations
  of \<open>load\<close> for it: \<open>n div batch_size\<close> of exactly \<open>batch_size\<close> records during
  the submissions, and one more at shutdown with the \<open>n mod batch_size\<close> remaining records
  when there are any.
\<close>

theorem load_count_is_ceiling:
  assumes pos: "0 < batch_size self" and fresh: "buffers self = []"
    and ok: "\<forall>n. urlopen env n = None"
    and same: "\<forall>s\<in>set subs. resolve_target self (fst s) (snd s) = Inr d"
  shows "int (length (calls_for d (snd (snd (close_spider env (submit_all env subs (self, []))))))) =
           \<lceil>real (length subs) / real_of_int (batch_size self)\<rceil> \<and>
         call_sizes (calls_for d (snd (submit_all env subs (self, [])))) =
           replicate (length subs div nat (batch_size self)) (nat (batch_size self)) \<and>
         call_sizes (calls_for d (snd (snd (close_spider env (submit_all env subs (self, [])))))) =
           replicate (length subs div nat (batch_size self)) (nat (batch_size self)) @
             (if length subs mod nat (batch_size self) = 0 then []
              else [length subs mod nat (batch_size self)])"
proof -
  define b where "b = nat (batch_size self)"
  have b: "batch_size self = int b" "0 < b"
    using pos by (simp_all add: b_def)
  obtain self1 net1 self2 net2 where
    sub: "submit_all env subs (self, []) = (self1, net1)"
    and close: "close_spider env (self1, net1) = (Inr (), self2, net2)"
    and inv1: "\<forall>k. int (length (buffer_at self1 k)) < batch_size self"
    and exact1: "\<forall>c\<in>set net1. int (length (call_records c)) = batch_size self"
    and deliv1: "\<forall>d. batches_for d net1 @ buffer_at self1 d = submitted_for self d subs"
    and calls2: "\<forall>c\<in>set net2. c \<in> set net1 \<or>
                   (\<exists>k. call_records c = buffer_at self1 k \<and> buffer_at self1 k \<noteq> [])"
    and sizes2: "\<forall>d. map (\<lambda>c. length (call_records c)) (calls_for d net2) =
          map (\<lambda>c. length (call_records c)) (calls_for d net1) @
            (if buffer_at self1 d \<noteq> [] then [length (buffer_at self1 d)] else [])"
    and batches2: "\<forall>d. batches_for d net2 = submitted_for self d subs"
    by (rule run_accepted [OF pos fresh ok, of subs])
  have exact: "\<forall>c\<in>set net1. length (call_records c) = b"
    using exact1 b(1) by simp
  have "length (batches_for d net1 @ buffer_at self1 d) = length subs"
    using deliv1 [rule_format, of d] submitted_for_all [OF same] by simp
  then have sum: "length (calls_for d net1) * b + length (buffer_at self1 d) = length subs"
    using length_batches_exact [OF exact, of d] by simp
  have rest: "length (buffer_at self1 d) < b"
    using inv1 [rule_format, of d] b(1) by simp
  have count: "length (calls_for d net1) = length subs div b"
    and remainder: "length (buffer_at self1 d) = length subs mod b"
    using quotient_remainder [OF sum rest] by simp_all
  have "\<forall>c\<in>set (calls_for d net1). length (call_records c) = b"
    using exact by (simp add: calls_for_def)
  then have during: "map (\<lambda>c. length (call_records c)) (calls_for d net1) =
      replicate (length subs div b) b"
    using map_constant [of "calls_for d net1" "\<lambda>c. length (call_records c)" b] count by simp
  have waiting: "buffer_at self1 d = [] \<longleftrightarrow> length subs mod b = 0"
    using remainder by (metis length_0_conv)
  have after: "map (\<lambda>c. length (call_records c)) (calls_for d net2) =
      replicate (length subs div b) b @ (if length subs mod b = 0 then [] else [length subs mod b])"
    using sizes2 [rule_format, of d] during remainder waiting by simp
  have "length (calls_for d net2) = length subs div b + (if length subs mod b = 0 then 0 else 1)"
    using arg_cong [OF after, of length] by simp
  then have "int (length (calls_for d net2)) = \<lceil>real (length subs) / real b\<rceil>"
    using ceiling_batches [OF b(2), of "length subs"] by simp
  then show ?thesis
    using during after by (simp add: sub close b(1) call_sizes_def flip: b_def)
qed

text \<open>
  120 submissions with a batch size of 50: two invocations of 50 records during the
  submissions, a third of 20 records at shutdown.
\<close>

theorem load_count_is_ceiling_witness:
  "call_sizes (calls_for (''demo'', ''quotes'')
     (snd (submit_all env_ok (replicate 120 (QuotesSpider, anonymous_quote)) (settings_pipeline, []))))
     = [50, 50] \<and>
   call_sizes (calls_for (''demo'', ''quotes'')
     (snd (snd (close_spider env_ok
        (submit_all env_ok (replicate 120 (QuotesSpider, anonymous_quote)) (settings_pipeline, []))))))
     = [50, 50, 20]"
proof -
  have pos: "0 < batch_size settings_pipeline"
    by (simp add: settings_pipeline_def)
  have fresh: "buffers settings_pipeline = []"
    by (simp add: settings_pipeline_def)
  have ok: "\<forall>n. urlopen env_ok n = None"
    by (simp add: env_ok_def)
  have same: "\<forall>s\<in>set (replicate 120 (QuotesSpider, anonymous_quote)).
      resolve_target settings_pipeline (fst s) (snd s) = Inr (''demo'', ''quotes'')"
    by (simp add: configurations operations)
  have size: "batch_size settings_pipeline = 50"
    by (simp add: settings_pipeline_def)
  have two: "replicate 2 (50::nat) = [50, 50]"
    by (simp add: numeral_2_eq_2)
  show ?thesis
    using load_count_is_ceiling [OF pos fresh ok same] two
    by (simp add: size call_sizes_def)
qed

text \<open>
  C5 as stated fails when a load fails: with a batch size of 2 and two submissions the
  first request is refused, the buffer is kept, and the shutdown loads it again: two
  invocations where \<open>ceil(2 / 2) = 1\<close>.
\<close>

theorem failed_load_is_repeated_at_shutdown:
  "length (calls_for (''demo'', ''quotes'')
     (snd (snd (close_spider env_first_500 (submit_all env_first_500
        [(QuotesSpider, anonymous_quote), (QuotesSpider, attributed_quote)] (batch_of_two, []))))))
     = 2 \<and>
   \<lceil>real (length [(QuotesSpider, anonymous_quote), (QuotesSpider, attributed_quote)]) /
     real_of_int (batch_size batch_of_two)\<rceil> = 1"
  by (simp add: configurations operations)

section \<open>C6\<close>

text \<open>
  C6, as the code has it. The database and the table are resolved one by one. When no tier
  yields a non-empty database, or no tier yields a non-empty table, \<open>_resolve_target\<close>
  raises \<open>ValueError\<close>; \<open>process_item\<close> raises it in turn, and neither the buffers nor
  the network have changed.
\<close>

theorem unresolved_target_aborts_item:
  assumes "(\<not> truthy (fst (override_tier spider item)) \<and> \<not> truthy (fst (static_tier spider)) \<and>
            \<not> truthy (fst (global_tier self))) \<or>
           (\<not> truthy (snd (override_tier spider item)) \<and> \<not> truthy (snd (static_tier spider)) \<and>
            \<not> truthy (snd (global_tier self)))"
  shows "resolve_target self spider item = Inl ValueError \<and>
         process_item env spider item (self, net) = (Inl ValueError, self, net)"
  using resolve_target_raises [OF assms] by (simp add: process_item_unresolved)

text \<open>
  The theorem on a spider without any attribute and a pipeline without defaults.
\<close>

theorem unresolved_target_aborts_item_witness:
  "process_item env_ok bare_spider anonymous_quote (no_defaults_pipeline, []) =
     (Inl ValueError, no_defaults_pipeline, [])"
proof -
  have "\<not> truthy (fst (override_tier bare_spider anonymous_quote)) \<and>
        \<not> truthy (fst (static_tier bare_spider)) \<and>
        \<not> truthy (fst (global_tier no_defaults_pipeline))"
    by (simp add: override_tier_def static_tier_def global_tier_def truthy_def bare_spider_def
          no_defaults_pipeline_def settings_pipeline_def)
  then show ?thesis
    using unresolved_target_aborts_item [of bare_spider anonymous_quote no_defaults_pipeline env_ok "[]"]
    by simp
qed

text \<open>
  C6 as stated fails: no tier yields a non-empty pair (the spider has only a table, the
  pipeline only a default database), yet the two halves are put together and the
  resolution succeeds.
\<close>

theorem components_are_mixed_across_tiers:
  "\<not> nonempty_pair (override_tier table_only_spider anonymous_quote) \<and>
   \<not> nonempty_pair (static_tier table_only_spider) \<and>
   \<not> nonempty_pair (global_tier database_only_pipeline) \<and>
   resolve_target database_only_pipeline table_only_spider anonymous_quote = Inr (''db'', ''t'')"
  by (simp add: nonempty_pair_def override_tier_def static_tier_def global_tier_def
        configurations operations)

section \<open>C7\<close>

text \<open>
  C7. On a request whose \<open>meta["proxy"]\<close> holds a non-empty string, any number of calls
  of \<open>process_request\<close> leaves the request as it is and makes no store query.
\<close>

theorem process_request_keeps_assignment:
  assumes "truthy (meta_get request ''proxy'')"
  shows "(process_request decode self ^^ n) (request, q) = (request, q)"
  using assms by (induction n) (simp_all add: process_request_assigned)

text \<open>
  Two calls on a request with a proxy, although the store offers another one.
\<close>

theorem process_request_keeps_assignment_witness:
  "(process_request latin_decode stocked_middleware ^^ 2) (proxied_request, 0) = (proxied_request, 0)"
proof -
  have "truthy (meta_get proxied_request ''proxy'')"
    by (simp add: truthy_def meta_get_def proxied_request_def)
  then show ?thesis
    by (rule process_request_keeps_assignment)
qed

section \<open>C8\<close>

text \<open>
  C8. On a request without a proxy, when \<open>srandmember\<close> returns \<open>None\<close> and no
  fallback proxy is configured, \<open>process_request\<close> makes its one query and leaves the
  request, and so its \<open>meta\<close>, unchanged.
\<close>

theorem empty_store_without_fallback:
  assumes "\<not> truthy (meta_get request ''proxy'')"
    and "client self = Some c" and "c (proxy_key self) q = Nil"
    and "\<not> truthy (fallback_proxy self)"
  shows "process_request decode self (request, q) = (request, Suc q)"
  using assms by (simp add: process_request_def get_proxy_def truthy_def)

text \<open>
  The theorem on a request whose \<open>meta\<close> is empty.
\<close>

theorem empty_store_without_fallback_witness:
  "process_request latin_decode empty_store_middleware (plain_request, 0) = (plain_request, Suc 0) \<and>
   meta plain_request ''proxy'' = None"
proof -
  have absent: "\<not> truthy (meta_get plain_request ''proxy'')"
    by (simp add: truthy_def meta_get_def plain_request_def)
  have store: "client empty_store_middleware = Some (\<lambda>key n. Nil)"
    by (simp add: empty_store_middleware_def)
  have fallback: "\<not> truthy (fallback_proxy empty_store_middleware)"
    by (simp add: truthy_def empty_store_middleware_def)
  show ?thesis
    using empty_store_without_fallback [OF absent store _ fallback, where q = 0 and decode = latin_decode]
    by (simp add: plain_request_def)
qed

section \<open>The label header\<close>

text \<open>
  The label of a request is the text stored last under the name \<open>Label\<close>. When no
  extra header goes by that name it is the generated one; an extra header that does
  replaces it.
\<close>

lemma map_of_add_header:
  "map_of (add_header key val headers) name =
     (if name = capitalize key then Some val else map_of headers name)"
  by (simp add: add_header_def update_conv')



lemma extra_label_replaces:
  assumes "extra_headers self = extras @ [(header, val)]" and "capitalize header = ''Label''"
  shows "call_label (stream_load_request env self database table recs n) = Some val"
  using assms
  by (simp add: call_label_def stream_load_request_def request_headers_def Let_def
        map_of_add_header)

lemma labels_differ_iff_tokens_differ:
  "generate_label self env m = generate_label self env n \<longleftrightarrow> uuid4 env m = uuid4 env n"
  by (simp add: generate_label_def)








section \<open>C9\<close>




section \<open>C10\<close>

text \<open>
  C10. A flush of a destination, and a \<open>process_item\<close> whose item resolves to it, leave
  the entry of every other key of \<open>buffers\<close> as it was, whether the load succeeds or
  fails.
\<close>

theorem other_buffers_unchanged:
  assumes "key \<noteq> (database, table)"
  shows "map_of (buffers (fst (snd (flush env database table (self, net))))) key =
           map_of (buffers self) key \<and>
         (resolve_target self spider item = Inr (database, table) \<longrightarrow>
            map_of (buffers (fst (snd (process_item env spider item (self, net))))) key =
              map_of (buffers self) key)"
  by (simp add: flush_other_key [OF assms] process_item_other_key [OF _ assms])

text \<open>
  The theorem on two buffers: a flush that succeeds and a submission on a failing network.
\<close>

theorem other_buffers_unchanged_witness:
  "map_of (buffers (fst (snd (flush env_ok ''demo'' ''quotes'' (two_buffers, [])))))
     (''demo'', ''authors'') = Some [anonymous_quote] \<and>
   map_of (buffers (fst (snd (process_item env_500 QuotesSpider attributed_quote (two_buffers, [])))))
     (''demo'', ''authors'') = Some [anonymous_quote]"
proof -
  have other: "(''demo'', ''authors'') \<noteq> (''demo'', ''quotes'')"
    by simp
  have target: "resolve_target two_buffers QuotesSpider attributed_quote = Inr (''demo'', ''quotes'')"
    by (simp add: configurations operations)
  have before: "map_of (buffers two_buffers) (''demo'', ''authors'') = Some [anonymous_quote]"
    by (simp add: two_buffers_def settings_pipeline_def)
  show ?thesis
    using target before
      other_buffers_unchanged [OF other, of env_ok two_buffers "[]" QuotesSpider attributed_quote]
      other_buffers_unchanged [OF other, of env_500 two_buffers "[]" QuotesSpider attributed_quote]
    by simp
qed

end
